theory Spec2Isabelle
  imports Main "HOL-Library.Sublist"
begin

section \<open>Python strings\<close>

text \<open>
  A Python \<open>str\<close> is modelled as a \<open>string\<close> whose elements stand for code points; the
  model covers the code points below 256. \<open>length\<close> is Python's \<open>len\<close>.
  \<open>isspace\<close> lists the code points below 256 that \<open>str.strip()\<close> removes and that
  \<open>\s\<close> matches in a \<open>str\<close> pattern; \<open>isdigit\<close> those that \<open>\d\<close> matches.
\<close>

definition NL :: char where
  "NL = CHR 0x0A"

definition isspace :: "char \<Rightarrow> bool" where
  "isspace c = (c \<in> set [CHR 0x09, CHR 0x0A, CHR 0x0B, CHR 0x0C, CHR 0x0D,
                           CHR 0x1C, CHR 0x1D, CHR 0x1E, CHR 0x1F, CHR 0x20,
                           CHR 0x85, CHR 0xA0])"

definition isdigit :: "char \<Rightarrow> bool" where
  "isdigit c = (c \<in> set ''0123456789'')"

definition lstrip :: "string \<Rightarrow> string" where
  "lstrip s = dropWhile isspace s"

definition rstrip :: "string \<Rightarrow> string" where
  "rstrip s = rev (dropWhile isspace (rev s))"

definition strip :: "string \<Rightarrow> string" where
  "strip s = rstrip (lstrip s)"

text \<open>\<open>s.split('\n')\<close>: never empty, \<open>''.split('\n') == ['']\<close>.\<close>

fun split_nl :: "string \<Rightarrow> string list" where
  "split_nl [] = [[]]"
| "split_nl (c # cs) =
     (if c = NL then [] # split_nl cs
      else (case split_nl cs of l # ls \<Rightarrow> (c # l) # ls | [] \<Rightarrow> [[c]]))"

definition startswith :: "string \<Rightarrow> string \<Rightarrow> bool" where
  "startswith s p = prefix p s"

text \<open>\<open>sub in s\<close> for strings.\<close>

definition contains :: "string \<Rightarrow> string \<Rightarrow> bool" where
  "contains s sub = sublist sub s"


section \<open>The language-model boundary\<close>

text \<open>
  \<open>self.llm.invoke(messages)\<close> is an external call: it returns a reply text or raises.
  The model is a parameter: the reply may depend on the messages and on the calls made so
  far. The log of calls is the state that the agents thread; a call that returns appends
  its messages to the log.
\<close>

datatype message = SystemMessage string | HumanMessage string

datatype py_exception = PyException string

type_synonym llm_log = "message list list"

type_synonym llm = "llm_log \<Rightarrow> message list \<Rightarrow> py_exception + string"

definition invoke :: "llm \<Rightarrow> llm_log \<Rightarrow> message list \<Rightarrow> py_exception + (string \<times> llm_log)" where
  "invoke m log messages =
     (case m log messages of
        Inl e \<Rightarrow> Inl e
      | Inr content \<Rightarrow> Inr (content, log @ [messages]))"


section \<open>POWERPOINT_VC_AGENT: condensation to three bullets\<close>

text \<open>
  The loop of \<open>condense_to_three_bullets\<close> over the reply's lines:
  \<^verbatim>\<open>
    for line in response.content.strip().split('\n'):
        line = line.strip()
        if line.startswith('- '):
            bullet = line[2:].strip()
            if len(bullet) > 120:
                bullet = bullet[:117] + "..."
            bullets.append(bullet)
  \<close>
  \<open>condense_executive_summary\<close> runs the same loop with 100 and 97.
\<close>

fun collect_bullets :: "nat \<Rightarrow> nat \<Rightarrow> string list \<Rightarrow> string list \<Rightarrow> string list" where
  "collect_bullets limit keep [] bullets = bullets"
| "collect_bullets limit keep (line0 # lines) bullets =
     (let line = strip line0 in
      if startswith line ''- '' then
        (let bullet0 = strip (drop 2 line);
             bullet = (if length bullet0 > limit then take keep bullet0 @ ''...'' else bullet0)
         in collect_bullets limit keep lines (bullets @ [bullet]))
      else collect_bullets limit keep lines bullets)"

text \<open>\<open>while len(bullets) < 3: bullets.append(filler)\<close>\<close>

function pad_to_three :: "string \<Rightarrow> string list \<Rightarrow> string list" where
  "pad_to_three filler bullets =
     (if length bullets < 3 then pad_to_three filler (bullets @ [filler]) else bullets)"
  by pat_completeness auto
termination
  by (relation "measure (\<lambda>(filler, bullets). 3 - length bullets)") auto

declare pad_to_three.simps [simp del]

definition parse_three_bullets :: "string \<Rightarrow> string list" where
  "parse_three_bullets content =
     (let bullets = collect_bullets 120 117 (split_nl (strip content)) [];
          bullets = pad_to_three ''Additional research pending'' bullets
      in take 3 bullets)"

definition vc_system_prompt :: string where
  "vc_system_prompt =
     ''You are a presentation editor. Convert the content into EXACTLY 3 bullet points.'' @ [NL, NL] @
     ''Rules:'' @ [NL] @
     ''- Each bullet must be under 100 characters'' @ [NL] @
     ''- Keep key data points and metrics'' @ [NL] @
     ''- Be specific and concise'' @ [NL] @
     ''- No sub-bullets'' @ [NL] @
     ''- Start each with a strong action word or key term'' @ [NL, NL] @
     ''Return ONLY 3 lines, each starting with '' @ [CHR 0x22] @ ''- '' @ [CHR 0x22] @ '' ''"

definition vc_user_prompt :: "string \<Rightarrow> string \<Rightarrow> string" where
  "vc_user_prompt content section_title =
     ''Section: '' @ section_title @ [NL, NL] @
     ''Content:'' @ [NL] @ content @ [NL, NL] @
     ''Convert to exactly 3 concise bullet points (under 100 chars each):''"

definition condense_to_three_bullets ::
  "llm \<Rightarrow> llm_log \<Rightarrow> string \<Rightarrow> string \<Rightarrow> py_exception + (string list \<times> llm_log)" where
  "condense_to_three_bullets m log content section_title =
     (case invoke m log [SystemMessage vc_system_prompt,
                         HumanMessage (vc_user_prompt content section_title)] of
        Inl e \<Rightarrow> Inl e
      | Inr (reply, log') \<Rightarrow> Inr (parse_three_bullets reply, log'))"


section \<open>POWERPOINT_NETWORKING_AGENT: condensation and bullet extraction\<close>

definition net_system_prompt :: string where
  "net_system_prompt =
     ''Convert the content into EXACTLY 3 bullet points.'' @ [NL, NL] @
     ''Rules:'' @ [NL] @
     ''- Each bullet must be under 100 characters'' @ [NL] @
     ''- Keep key data points'' @ [NL] @
     ''- No sub-bullets'' @ [NL] @
     ''- Return ONLY 3 lines starting with '' @ [CHR 0x27] @ ''- '' @ [CHR 0x27]"

definition net_user_prompt :: "string \<Rightarrow> string \<Rightarrow> string" where
  "net_user_prompt content section_title =
     ''Section: '' @ section_title @ [NL, NL] @
     ''Content:'' @ [NL] @ content @ [NL, NL] @
     ''Convert to exactly 3 concise bullet points:''"

text \<open>
  \<open>PowerPointNetworkingAgent.condense_to_three_bullets\<close>: its reply loop, its padding
  loop and its constants are those of the thesis agent; only the prompts differ.
\<close>

definition net_condense_to_three_bullets ::
  "llm \<Rightarrow> llm_log \<Rightarrow> string \<Rightarrow> string \<Rightarrow> py_exception + (string list \<times> llm_log)" where
  "net_condense_to_three_bullets m log content section_title =
     (case invoke m log [SystemMessage net_system_prompt,
                         HumanMessage (net_user_prompt content section_title)] of
        Inl e \<Rightarrow> Inl e
      | Inr (reply, log') \<Rightarrow> Inr (parse_three_bullets reply, log'))"


section \<open>The condensation rule in the specification's words\<close>

text \<open>
  The bullets collected from a reply: the lines that begin with \<open>- \<close> once stripped, in
  order, each without its marker, stripped, and cut to 117 characters plus an ellipsis when
  longer than 120. The result of the operation: the first three of the collected bullets,
  after padding with the filler.
\<close>

definition cap_bullet :: "string \<Rightarrow> string" where
  "cap_bullet b = (if length b > 120 then take 117 b @ ''...'' else b)"

definition spec_collected :: "string \<Rightarrow> string list" where
  "spec_collected reply =
     map (\<lambda>l. cap_bullet (strip (drop 2 (strip l))))
         (filter (\<lambda>l. startswith (strip l) ''- '') (split_nl (strip reply)))"

definition spec_three_bullets :: "string \<Rightarrow> string list" where
  "spec_three_bullets reply =
     take 3 (spec_collected reply @
             replicate (3 - length (spec_collected reply)) ''Additional research pending'')"


text \<open>A reply with a preamble, an indented bullet, a line without the marker's blank, and a bullet.\<close>

definition sample_reply :: string where
  "sample_reply = ''Here:'' @ [NL] @ '' - one '' @ [NL] @ ''-two'' @ [NL] @ ''- three''"


section \<open>POWERPOINT_VC_AGENT: the deck\<close>

text \<open>
  The parsed thesis: the dictionary that \<open>parse_thesis\<close> returns, with its four keys, and
  the dictionaries of its \<open>sections\<close> list, with their three keys. The section number is
  the digit string of the header, not an integer.
\<close>

record section_rec =
  number :: string
  title :: string
  content :: string

record thesis_data =
  sector :: string
  region :: string
  executive_summary :: string
  sections :: "section_rec list"

text \<open>
  A presentation is the list of its slides. A slide has its shapes in order, the index of
  the title placeholder among them (\<open>slide.shapes.title\<close>, absent on the blank layout) and
  the text of its speaker notes (\<open>None\<close> while the slide has no notes slide). A shape has
  the name of its class and, when it has a \<open>text_frame\<close>, the texts of the paragraphs of
  that frame. Geometry, fonts and colours are not modelled: no check reads them.
\<close>

record shape =
  shape_type :: string
  text_frame :: "string list option"

record slide =
  shapes :: "shape list"
  title_shape :: "nat option"
  notes_text :: "string option"

type_synonym presentation = "slide list"

definition autoshape :: shape where
  "autoshape = \<lparr>shape_type = ''Shape'', text_frame = Some [[]]\<rparr>"

definition textbox :: "string \<Rightarrow> shape" where
  "textbox t = \<lparr>shape_type = ''Shape'', text_frame = Some [t]\<rparr>"

text \<open>
  \<open>_add_title_slide\<close>: blank layout; an accent bar, three text boxes of one paragraph
  each, an accent bar. \<open>now\<close> is the text of \<open>datetime.now().strftime('%B %Y')\<close>.
\<close>

definition add_title_slide :: "presentation \<Rightarrow> string \<Rightarrow> string \<Rightarrow> string \<Rightarrow> presentation" where
  "add_title_slide prs sector_name region_name now =
     prs @ [\<lparr>shapes = [autoshape,
                         textbox ''Venture Capital Industry Thesis'',
                         textbox sector_name,
                         textbox (region_name @ ''  |  '' @ now @ ''  |  GPTOSS VC Thesis System''),
                         autoshape],
              title_shape = None, notes_text = None\<rparr>]"

text \<open>
  The bullet loop of \<open>_add_content_slide\<close>, on the paragraphs of the cleared body frame (one
  empty paragraph):
  \<^verbatim>\<open>
    for i, bullet_text in enumerate(bullets):
        if i == 0: p = tf.paragraphs[0]
        else:      p = tf.add_paragraph()
        p.text = bullet_text
  \<close>
\<close>

fun fill_paragraphs :: "nat \<Rightarrow> string list \<Rightarrow> string list \<Rightarrow> string list" where
  "fill_paragraphs i [] paragraphs = paragraphs"
| "fill_paragraphs i (bullet_text # bullets) paragraphs =
     (if i = 0 then fill_paragraphs (i + 1) bullets (paragraphs[0 := bullet_text])
      else fill_paragraphs (i + 1) bullets (paragraphs @ [bullet_text]))"

text \<open>
  \<open>_add_content_slide\<close>: layout ``Title and Content''; the title placeholder receives the
  title (a text frame splits an assigned text into paragraphs at line feeds), the body
  placeholder the bullets.
\<close>

definition content_slide :: "string \<Rightarrow> string list \<Rightarrow> slide" where
  "content_slide slide_title bullets =
     \<lparr>shapes = [\<lparr>shape_type = ''SlidePlaceholder'', text_frame = Some (split_nl slide_title)\<rparr>,
                \<lparr>shape_type = ''SlidePlaceholder'',
                 text_frame = Some (fill_paragraphs 0 bullets [[]])\<rparr>],
      title_shape = Some 0, notes_text = None\<rparr>"

definition add_content_slide :: "presentation \<Rightarrow> string \<Rightarrow> string list \<Rightarrow> presentation" where
  "add_content_slide prs slide_title bullets = prs @ [content_slide slide_title bullets]"

text \<open>\<open>_add_closing_slide\<close>: blank layout; a background shape and three text boxes.\<close>

definition add_closing_slide :: "presentation \<Rightarrow> string \<Rightarrow> string \<Rightarrow> presentation" where
  "add_closing_slide prs sector_name now =
     prs @ [\<lparr>shapes = [autoshape,
                         textbox ''Thank You'',
                         textbox (sector_name @ '' Industry Thesis''),
                         textbox (''Generated by GPTOSS VC Thesis System  |  '' @ now)],
              title_shape = None, notes_text = None\<rparr>]"

definition summary_system_prompt :: string where
  "summary_system_prompt =
     ''Condense this executive summary into EXACTLY 3 key takeaways.'' @ [NL] @
     ''Each point should be 1 sentence, under 80 characters.'' @ [NL] @
     ''Return only 3 lines starting with '' @ [CHR 0x22] @ ''- '' @ [CHR 0x22] @ '' ''"

definition parse_summary_bullets :: "string \<Rightarrow> string list" where
  "parse_summary_bullets reply =
     (let bullets = collect_bullets 100 97 (split_nl (strip reply)) [];
          bullets = pad_to_three ''Key insight from research'' bullets
      in take 3 bullets)"

definition condense_executive_summary ::
  "llm \<Rightarrow> llm_log \<Rightarrow> string \<Rightarrow> py_exception + (string list \<times> llm_log)" where
  "condense_executive_summary m log summary =
     (case invoke m log [SystemMessage summary_system_prompt,
                         HumanMessage (''Summary:'' @ [NL] @ summary @ [NL, NL] @
                                       ''Return 3 key points:'')] of
        Inl e \<Rightarrow> Inl e
      | Inr (reply, log') \<Rightarrow> Inr (parse_summary_bullets reply, log'))"

text \<open>
  The loop of \<open>create_presentation\<close> over the sections; an exception of the model call
  leaves the loop and the function.
\<close>

fun add_section_slides ::
  "llm \<Rightarrow> llm_log \<Rightarrow> section_rec list \<Rightarrow> presentation \<Rightarrow> py_exception + (presentation \<times> llm_log)" where
  "add_section_slides m log [] prs = Inr (prs, log)"
| "add_section_slides m log (sec # secs) prs =
     (let section_num = number sec;
          section_title = title sec;
          full_title = section_num @ ''. '' @ section_title
      in case condense_to_three_bullets m log (content sec) section_title of
           Inl e \<Rightarrow> Inl e
         | Inr (bullets, log') \<Rightarrow>
             add_section_slides m log' secs (add_content_slide prs full_title bullets))"

definition create_presentation ::
  "llm \<Rightarrow> llm_log \<Rightarrow> string \<Rightarrow> thesis_data \<Rightarrow> py_exception + (presentation \<times> llm_log)" where
  "create_presentation m log now thesis =
     (let prs = add_title_slide [] (sector thesis) (region thesis) now in
      case (if executive_summary thesis \<noteq> [] then
              (case condense_executive_summary m log (executive_summary thesis) of
                 Inl e \<Rightarrow> Inl e
               | Inr (summary_bullets, log') \<Rightarrow>
                   Inr (add_content_slide prs ''Executive Summary'' summary_bullets, log'))
            else Inr (prs, log)) of
        Inl e \<Rightarrow> Inl e
      | Inr (prs, log) \<Rightarrow>
          (case add_section_slides m log (sections thesis) prs of
             Inl e \<Rightarrow> Inl e
           | Inr (prs, log) \<Rightarrow> Inr (add_closing_slide prs (sector thesis) now, log)))"

text \<open>The bullets that a content slide shows: the paragraphs of its second placeholder.\<close>

definition slide_bullets :: "slide \<Rightarrow> string list" where
  "slide_bullets sl = (case text_frame (shapes sl ! 1) of Some ps \<Rightarrow> ps | None \<Rightarrow> [])"





section \<open>POWERPOINT_NETWORKING_AGENT: bullets taken from the section\<close>

text \<open>
  The loop of \<open>extract_bullets\<close> over the lines of the section content:
  \<^verbatim>\<open>
    for line in content.split('\n'):
        line = line.strip()
        if line.startswith('- '):
            bullet = line[2:].strip()
            if bullet:
                bullets.append(bullet)
  \<close>
\<close>

fun extract_lines :: "string list \<Rightarrow> string list \<Rightarrow> string list" where
  "extract_lines [] bullets = bullets"
| "extract_lines (line0 # lines) bullets =
     (let line = strip line0 in
      if startswith line ''- '' then
        (let bullet = strip (drop 2 line) in
         if bullet \<noteq> [] then extract_lines lines (bullets @ [bullet])
         else extract_lines lines bullets)
      else extract_lines lines bullets)"

definition extract_bullets ::
  "llm \<Rightarrow> llm_log \<Rightarrow> string \<Rightarrow> string \<Rightarrow> py_exception + (string list \<times> llm_log)" where
  "extract_bullets m log body section_title =
     (let bullets = extract_lines (split_nl body) [] in
      if length bullets = 3 then Inr (bullets, log)
      else net_condense_to_three_bullets m log body section_title)"

text \<open>
  The markdown bullets of a section in the specification's words: the lines that begin
  with \<open>- \<close> once stripped, without the marker, stripped, the empty ones left out.
\<close>

definition markdown_bullets :: "string \<Rightarrow> string list" where
  "markdown_bullets body =
     filter (\<lambda>b. b \<noteq> [])
       (map (\<lambda>l. strip (drop 2 (strip l)))
            (filter (\<lambda>l. startswith (strip l) ''- '') (split_nl body)))"

text \<open>The number of calls in the log of a run that returned; a model that replies nothing.\<close>

definition model_calls :: "py_exception + ('a \<times> llm_log) \<Rightarrow> nat" where
  "model_calls r = (case r of Inl e \<Rightarrow> 0 | Inr (x, log) \<Rightarrow> length log)"

definition returned :: "py_exception + ('a \<times> llm_log) \<Rightarrow> 'a option" where
  "returned r = (case r of Inl e \<Rightarrow> None | Inr (x, log) \<Rightarrow> Some x)"

definition silent_model :: llm where
  "silent_model log messages = Inr []"

text \<open>A section body of three bullet lines, and one whose first bullet has 121 characters.\<close>

definition three_bullet_body :: string where
  "three_bullet_body = ''- alpha'' @ [NL] @ ''- beta'' @ [NL] @ ''- gamma''"

definition long_bullet_body :: string where
  "long_bullet_body = ''- '' @ replicate 121 (CHR ''x'') @ [NL] @ ''- beta'' @ [NL] @ ''- gamma''"

definition bulleted_thesis :: thesis_data where
  "bulleted_thesis = \<lparr>sector = ''B2B Fintech'', region = ''US'', executive_summary = [],
     sections = [\<lparr>number = ''1'', title = ''Trends'', content = three_bullet_body\<rparr>]\<rparr>"


section \<open>Research agents: the search client\<close>








text \<open>The bullets on slide \<open>i\<close> (from 0) of a deck that was returned.\<close>

definition shown_bullets :: "nat \<Rightarrow> py_exception + (presentation \<times> llm_log) \<Rightarrow> string list option" where
  "shown_bullets i r = map_option (\<lambda>prs. slide_bullets (prs ! i)) (returned r)"


section \<open>FinalPass_agent: extraction of the slide content\<close>

text \<open>
  \<open>QAIssue\<close>, and the dictionaries that \<open>extract_slide_content\<close> builds for a shape and for
  a slide. The key \<open>bullet_count\<close> of a shape dictionary exists only for a shape with a
  text frame.
\<close>

record qa_issue =
  slide_num :: nat
  issue_type :: string
  description :: string
  severity :: string
  fixed :: bool

definition QAIssue :: "nat \<Rightarrow> string \<Rightarrow> string \<Rightarrow> string \<Rightarrow> qa_issue" where
  "QAIssue n kind descr sev =
     \<lparr>slide_num = n, issue_type = kind, description = descr, severity = sev, fixed = False\<rparr>"

record shape_info =
  info_type :: string
  has_text :: bool
  info_text :: string
  info_bullet_count :: "nat option"

record slide_data =
  slide_number :: nat
  slide_title :: string
  text_boxes :: "shape_info list"
  total_text :: string
  bullet_count :: nat
  shape_infos :: "shape_info list"

text \<open>
  The loop over the paragraphs of a text frame:
  \<^verbatim>\<open>
    for para in shape.text_frame.paragraphs:
        para_text = para.text.strip()
        if para_text:
            text += para_text + "\n"
            if len(para_text) > 10:
                bullet_count += 1
  \<close>
\<close>

fun scan_paragraphs :: "string list \<Rightarrow> string \<Rightarrow> nat \<Rightarrow> string \<times> nat" where
  "scan_paragraphs [] txt count = (txt, count)"
| "scan_paragraphs (para # paras) txt count =
     (let para_text = strip para in
      if para_text \<noteq> [] then
        scan_paragraphs paras (txt @ para_text @ [NL])
          (if length para_text > 10 then count + 1 else count)
      else scan_paragraphs paras txt count)"

text \<open>
  The loop over the shapes of a slide; \<open>i\<close> is the position of the shape, compared with
  the position of the title placeholder for \<open>shape == slide.shapes.title\<close>.
\<close>

fun scan_shapes :: "nat option \<Rightarrow> nat \<Rightarrow> shape list \<Rightarrow> slide_data \<Rightarrow> slide_data" where
  "scan_shapes title_pos i [] sd = sd"
| "scan_shapes title_pos i (sh # shs) sd =
     (let info = \<lparr>info_type = shape_type sh, has_text = (text_frame sh \<noteq> None),
                   info_text = [], info_bullet_count = None\<rparr>
      in case text_frame sh of
           None \<Rightarrow> scan_shapes title_pos (i + 1) shs (sd\<lparr>shape_infos := shape_infos sd @ [info]\<rparr>)
         | Some paragraphs \<Rightarrow>
             (let (txt, count) = scan_paragraphs paragraphs [] 0;
                  info = info\<lparr>info_text := strip txt, info_bullet_count := Some count\<rparr>;
                  sd = (if strip txt \<noteq> [] then
                          (let sd = sd\<lparr>text_boxes := text_boxes sd @ [info],
                                         total_text := total_text sd @ txt,
                                         bullet_count := bullet_count sd + count\<rparr>
                           in if title_pos = Some i
                              then sd\<lparr>slide_title := (case split_nl (strip txt) of
                                                         l # ls \<Rightarrow> l | [] \<Rightarrow> [])\<rparr>
                              else sd)
                        else sd)
              in scan_shapes title_pos (i + 1) shs (sd\<lparr>shape_infos := shape_infos sd @ [info]\<rparr>)))"

definition slide_content :: "nat \<Rightarrow> slide \<Rightarrow> slide_data" where
  "slide_content i sl =
     scan_shapes (title_shape sl) 0 (shapes sl)
       \<lparr>slide_number = i + 1, slide_title = [], text_boxes = [], total_text = [],
        bullet_count = 0, shape_infos = []\<rparr>"

fun extract_slides :: "nat \<Rightarrow> presentation \<Rightarrow> slide_data list \<Rightarrow> slide_data list" where
  "extract_slides i [] slides_data = slides_data"
| "extract_slides i (sl # sls) slides_data =
     extract_slides (i + 1) sls (slides_data @ [slide_content i sl])"

definition extract_slide_content :: "presentation \<Rightarrow> slide_data list" where
  "extract_slide_content prs = extract_slides 0 prs []"

text \<open>The number of countable bullets of a shape: its paragraphs longer than 10 characters.\<close>

definition countable :: "shape \<Rightarrow> nat" where
  "countable sh =
     (case text_frame sh of
        None \<Rightarrow> 0
      | Some paragraphs \<Rightarrow> length (filter (\<lambda>p. length (strip p) > 10) paragraphs))"


section \<open>FinalPass_agent: the bullet-count check\<close>

text \<open>\<open>str(n)\<close> for a natural number.\<close>

function str_nat :: "nat \<Rightarrow> string" where
  "str_nat n = (if n < 10 then [char_of (48 + n)] else str_nat (n div 10) @ [char_of (48 + n mod 10)])"
  by pat_completeness auto
termination
  by (relation "measure id") auto

declare str_nat.simps [simp del]

text \<open>
  The loop of \<open>validate_bullet_count\<close>; \<open>n\<close> is \<open>len(slides_data)\<close> and the issues are
  \<open>self.issues\<close>.
\<close>

fun bullet_count_loop :: "nat \<Rightarrow> slide_data list \<Rightarrow> qa_issue list \<Rightarrow> qa_issue list" where
  "bullet_count_loop n [] issues = issues"
| "bullet_count_loop n (sd # sds) issues =
     (let num = slide_number sd in
      if num \<in> set [1, 2, n] then bullet_count_loop n sds issues
      else
        (let count = bullet_count sd in
         if count < 2 then
           bullet_count_loop n sds
             (issues @ [QAIssue num ''too_few_bullets''
                          (''Slide has only '' @ str_nat count @ '' bullet(s), recommend at least 3'')
                          ''warning''])
         else if count > 6 then
           bullet_count_loop n sds
             (issues @ [QAIssue num ''too_many_bullets''
                          (''Slide has '' @ str_nat count @ '' bullets, may be overcrowded'')
                          ''warning''])
         else bullet_count_loop n sds issues))"

definition validate_bullet_count :: "slide_data list \<Rightarrow> qa_issue list \<Rightarrow> qa_issue list" where
  "validate_bullet_count slides_data issues =
     bullet_count_loop (length slides_data) slides_data issues"

text \<open>The issues that the check raises about slide \<open>n\<close>.\<close>

definition issues_about :: "nat \<Rightarrow> qa_issue list \<Rightarrow> qa_issue list" where
  "issues_about n issues = filter (\<lambda>q. slide_num q = n) issues"

text \<open>
  A deck of four slides whose third slide has a title and one further paragraph, both
  longer than 10 characters: two countable bullets.
\<close>

definition two_bullet_deck :: presentation where
  "two_bullet_deck =
     add_closing_slide
       (add_content_slide
          (add_content_slide (add_title_slide [] ''B2B Fintech'' ''US'' ''November 2026'')
             ''Executive Summary'' [''Payments move to real time'', ''Margins stay thin'',
                                    ''Regulation tightens'']) 
          ''1. Emerging Trends'' [''Payments move to real time''])
       ''B2B Fintech'' ''November 2026''"


text \<open>
  The rule of the bullet-count check for one slide of a deck of \<open>n\<close> slides, as the
  check's branches read.
\<close>

definition bullet_count_rule :: "nat \<Rightarrow> slide_data \<Rightarrow> qa_issue list" where
  "bullet_count_rule n sd =
     (if slide_number sd = 1 \<or> slide_number sd = 2 \<or> slide_number sd = n then []
      else if bullet_count sd < 2 then
        [QAIssue (slide_number sd) ''too_few_bullets''
           (''Slide has only '' @ str_nat (bullet_count sd) @ '' bullet(s), recommend at least 3'')
           ''warning'']
      else if bullet_count sd > 6 then
        [QAIssue (slide_number sd) ''too_many_bullets''
           (''Slide has '' @ str_nat (bullet_count sd) @ '' bullets, may be overcrowded'')
           ''warning'']
      else [])"

text \<open>A deck of four slides whose third slide has a short title and one short paragraph.\<close>

definition sparse_deck :: presentation where
  "sparse_deck =
     add_closing_slide
       (add_content_slide
          (add_content_slide (add_title_slide [] ''B2B Fintech'' ''US'' ''November 2026'')
             ''Executive Summary'' [''Payments move to real time'', ''Margins stay thin'',
                                    ''Regulation tightens''])
          ''1. Trends'' [''Short''])
       ''B2B Fintech'' ''November 2026''"


section \<open>FinalPass_agent: fixes as speaker notes\<close>

text \<open>
  A fix is the dictionary with the keys \<open>original\<close> and \<open>fixed\<close>; the fixes are a
  dictionary from slide numbers to fixes, kept as the list of its items in insertion order.
\<close>

record fix_data =
  original :: string
  fixed_text :: string

type_synonym fix_dict = "(int \<times> fix_data) list"

text \<open>\<open>d[k] = v\<close> on the items of a dictionary.\<close>

fun dict_set :: "('k \<times> 'v) list \<Rightarrow> 'k \<Rightarrow> 'v \<Rightarrow> ('k \<times> 'v) list" where
  "dict_set [] k v = [(k, v)]"
| "dict_set ((k', v') # kvs) k v =
     (if k' = k then (k, v) # kvs else (k', v') # dict_set kvs k v)"

definition fix_system_prompt :: string where
  "fix_system_prompt =
     ''You are a presentation editor. Rewrite the given slide content to have EXACTLY 3 clear, concise bullet points.''
     @ [NL, NL] @
     ''Rules:'' @ [NL] @
     ''- Each bullet should be 1-2 sentences max'' @ [NL] @
     ''- Keep the key information and data points'' @ [NL] @
     ''- Maintain any citations/sources'' @ [NL] @
     ''- Use parallel structure'' @ [NL] @
     ''- Be specific and actionable'' @ [NL, NL] @
     ''Return ONLY the 3 bullets, one per line, starting with '' @ [CHR 0x22] @ ''- '' @ [CHR 0x22] @ '' ''"

definition fix_user_prompt :: "string \<Rightarrow> string" where
  "fix_user_prompt slide_text =
     ''Rewrite this slide content into exactly 3 clear bullets:'' @ [NL, NL] @
     slide_text @ [NL, NL] @
     ''Return only the 3 bullets.''"

text \<open>The first loop of \<open>generate_fixes\<close>: the slides that need bullet consolidation.\<close>

fun problem_slides :: "nat \<Rightarrow> slide_data list \<Rightarrow> slide_data list \<Rightarrow> slide_data list" where
  "problem_slides n [] found = found"
| "problem_slides n (sd # sds) found =
     (let num = slide_number sd in
      if num \<in> set [1, 2, n] then problem_slides n sds found
      else if bullet_count sd < 2 \<or> bullet_count sd > 6 then problem_slides n sds (found @ [sd])
      else problem_slides n sds found)"

text \<open>The second loop: one model call per problem slide.\<close>

fun fix_slides :: "llm \<Rightarrow> llm_log \<Rightarrow> slide_data list \<Rightarrow> fix_dict \<Rightarrow> py_exception + (fix_dict \<times> llm_log)" where
  "fix_slides m log [] fxs = Inr (fxs, log)"
| "fix_slides m log (sd # sds) fxs =
     (let num = slide_number sd;
          slide_text = total_text sd
      in case invoke m log [SystemMessage fix_system_prompt,
                            HumanMessage (fix_user_prompt slide_text)] of
           Inl e \<Rightarrow> Inl e
         | Inr (reply, log') \<Rightarrow>
             fix_slides m log' sds
               (dict_set fxs (int num) \<lparr>original = slide_text, fixed_text = strip reply\<rparr>))"

definition generate_fixes ::
  "llm \<Rightarrow> llm_log \<Rightarrow> slide_data list \<Rightarrow> py_exception + (fix_dict \<times> llm_log)" where
  "generate_fixes m log slides_data =
     (let found = problem_slides (length slides_data) slides_data [] in
      if found = [] then Inr ([], log)
      else fix_slides m log found [])"




text \<open>A model that always returns three bullets.\<close>

definition fixing_model :: llm where
  "fixing_model log messages = Inr (''- one'' @ [NL] @ ''- two'' @ [NL] @ ''- three'')"


section \<open>Regular expressions of the \<open>re\<close> module\<close>

text \<open>
  The patterns of the agents use literals, character classes, a class repeated greedily or
  lazily, the anchors \<open>^\<close> and \<open>$\<close>, capture groups around one repeated class, and a
  lookahead over alternatives without groups. A pattern is the list of its items, with
  the flags of the call written into the items: \<open>AnyChar\<close> is the dot under \<open>DOTALL\<close>,
  \<open>NotNewline\<close> the dot without it; \<open>Bol\<close> and \<open>Eol\<close> are \<open>^\<close> and \<open>$\<close> under \<open>MULTILINE\<close>,
  \<open>Eos\<close> is \<open>$\<close> without it. \<open>Rep c n g\<close> is the class \<open>c\<close> at least \<open>n\<close> times, greedy
  when \<open>g\<close> holds.
\<close>

datatype cclass = AnyChar | NotNewline | Digit | Space | Newline

fun in_class :: "cclass \<Rightarrow> char \<Rightarrow> bool" where
  "in_class AnyChar c = True"
| "in_class NotNewline c = (c \<noteq> NL)"
| "in_class Digit c = isdigit c"
| "in_class Space c = isspace c"
| "in_class Newline c = (c = NL)"

datatype atom = Lit string | One cclass | Rep cclass nat bool | Bol | Eol | Eos

datatype item = Plain atom | Group atom | Lookahead "atom list list"

text \<open>
  The matcher backtracks: an atom offers the numbers of characters it can take at the
  current position, in the order in which the engine tries them (a greedy repetition the
  longest first, a lazy one the shortest first), and the first offer with which the rest
  of the pattern matches is taken. \<open>prev\<close> is the character before the position.
\<close>

fun atom_lengths :: "atom \<Rightarrow> char option \<Rightarrow> string \<Rightarrow> nat list" where
  "atom_lengths (Lit l) prev s = (if prefix l s then [length l] else [])"
| "atom_lengths (One c) prev s =
     (case s of [] \<Rightarrow> [] | x # xs \<Rightarrow> if in_class c x then [1] else [])"
| "atom_lengths (Rep c n greedy) prev s =
     (let k = length (takeWhile (in_class c) s) in
      if k < n then [] else if greedy then rev [n..<Suc k] else [n..<Suc k])"
| "atom_lengths Bol prev s = (if prev = None \<or> prev = Some NL then [0] else [])"
| "atom_lengths Eol prev s =
     (case s of [] \<Rightarrow> [0] | x # xs \<Rightarrow> if x = NL then [0] else [])"
| "atom_lengths Eos prev s = (if s = [] \<or> s = [NL] then [0] else [])"

definition advance :: "char option \<Rightarrow> string \<Rightarrow> nat \<Rightarrow> char option" where
  "advance prev s n = (case rev (take n s) of [] \<Rightarrow> prev | x # xs \<Rightarrow> Some x)"

fun try_all :: "('a \<Rightarrow> 'b option) \<Rightarrow> 'a list \<Rightarrow> 'b option" where
  "try_all f [] = None"
| "try_all f (x # xs) = (case f x of Some y \<Rightarrow> Some y | None \<Rightarrow> try_all f xs)"

lemma try_all_cong [fundef_cong]:
  "xs = ys \<Longrightarrow> (\<And>x. x \<in> set ys \<Longrightarrow> f x = g x) \<Longrightarrow> try_all f xs = try_all g ys"
  by (induction ys arbitrary: xs) (auto split: option.splits)

fun match_atoms :: "atom list \<Rightarrow> char option \<Rightarrow> string \<Rightarrow> bool" where
  "match_atoms [] prev s = True"
| "match_atoms (a # as) prev s =
     list_ex (\<lambda>n. match_atoms as (advance prev s n) (drop n s)) (atom_lengths a prev s)"

text \<open>The result of a match at a position: the texts of the groups and the length taken.\<close>

fun match_items :: "item list \<Rightarrow> char option \<Rightarrow> string \<Rightarrow> (string list \<times> nat) option" where
  "match_items [] prev s = Some ([], 0)"
| "match_items (Plain a # its) prev s =
     try_all (\<lambda>n. case match_items its (advance prev s n) (drop n s) of
                     None \<Rightarrow> None
                   | Some (gs, k) \<Rightarrow> Some (gs, n + k))
             (atom_lengths a prev s)"
| "match_items (Group a # its) prev s =
     try_all (\<lambda>n. case match_items its (advance prev s n) (drop n s) of
                     None \<Rightarrow> None
                   | Some (gs, k) \<Rightarrow> Some (take n s # gs, n + k))
             (atom_lengths a prev s)"
| "match_items (Lookahead alts # its) prev s =
     (if list_ex (\<lambda>alt. match_atoms alt prev s) alts then match_items its prev s else None)"

text \<open>A match object: \<open>start()\<close>, \<open>end()\<close> and the groups from 1.\<close>

record re_match =
  m_start :: nat
  m_end :: nat
  m_groups :: "string list"

text \<open>\<open>re.search\<close>: the match at the first position that has one.\<close>

fun search_from :: "item list \<Rightarrow> nat \<Rightarrow> char option \<Rightarrow> string \<Rightarrow> re_match option" where
  "search_from p pos prev [] =
     (case match_items p prev [] of
        Some (gs, k) \<Rightarrow> Some \<lparr>m_start = pos, m_end = pos + k, m_groups = gs\<rparr>
      | None \<Rightarrow> None)"
| "search_from p pos prev (c # cs) =
     (case match_items p prev (c # cs) of
        Some (gs, k) \<Rightarrow> Some \<lparr>m_start = pos, m_end = pos + k, m_groups = gs\<rparr>
      | None \<Rightarrow> search_from p (pos + 1) (Some c) cs)"

definition re_search :: "item list \<Rightarrow> string \<Rightarrow> re_match option" where
  "re_search p s = search_from p 0 None s"

text \<open>
  \<open>re.finditer\<close>: the matches from left to right, each search starting where the match
  before ended, and one character further after an empty match. \<open>next_step\<close> is the
  number of characters from the start of a search to the start of the next one.
\<close>

definition next_step :: "nat \<Rightarrow> re_match \<Rightarrow> nat" where
  "next_step pos m =
     max 1 ((if m_end m = m_start m then m_end m + 1 else m_end m) - pos)"

function finditer_from :: "item list \<Rightarrow> nat \<Rightarrow> char option \<Rightarrow> string \<Rightarrow> re_match list" where
  "finditer_from p pos prev s =
     (case search_from p pos prev s of
        None \<Rightarrow> []
      | Some m \<Rightarrow>
          (let step = next_step pos m
           in if length s < step then [m]
              else m # finditer_from p (pos + step) (advance prev s step) (drop step s)))"
  by pat_completeness auto
termination
  by (relation "measure (\<lambda>(p, pos, prev, s). length s)") (auto simp: next_step_def)

declare finditer_from.simps [simp del]

definition re_finditer :: "item list \<Rightarrow> string \<Rightarrow> re_match list" where
  "re_finditer p s = finditer_from p 0 None s"

text \<open>\<open>match.group(i)\<close> raises \<open>IndexError\<close> when the pattern has no group \<open>i\<close>.\<close>

definition group_text :: "re_match \<Rightarrow> nat \<Rightarrow> py_exception + string" where
  "group_text m i =
     (if 1 \<le> i \<and> i \<le> length (m_groups m) then Inr (m_groups m ! (i - 1))
      else Inl (PyException ''no such group''))"

section \<open>POWERPOINT_VC_AGENT: the document parser\<close>

text \<open>\<open>\*\*Region\*\*:\s*(.+?)$\<close> with \<open>MULTILINE\<close>\<close>

definition region_pattern :: "item list" where
  "region_pattern =
     [Plain (Lit ''**Region**:''), Plain (Rep Space 0 True), Group (Rep NotNewline 1 False),
      Plain Eol]"

text \<open>\<open>^## (.+?)$\<close> with \<open>MULTILINE\<close>\<close>

definition sector_pattern :: "item list" where
  "sector_pattern = [Plain Bol, Plain (Lit ''## ''), Group (Rep NotNewline 1 False), Plain Eol]"

text \<open>\<open>## Executive Summary\s*\n+(.*?)(?=\n---|\n## \d)\<close> with \<open>DOTALL\<close>\<close>

definition summary_pattern :: "item list" where
  "summary_pattern =
     [Plain (Lit ''## Executive Summary''), Plain (Rep Space 0 True), Plain (Rep Newline 1 True),
      Group (Rep AnyChar 0 False),
      Lookahead [[Lit (NL # ''---'')], [Lit (NL # ''## ''), One Digit]]]"

text \<open>\<open>## (\d+)\. (.+?)\n(.*?)(?=\n## \d|\n---\s*\n## Methodology|$)\<close> with \<open>DOTALL\<close>\<close>

definition section_pattern :: "item list" where
  "section_pattern =
     [Plain (Lit ''## ''), Group (Rep Digit 1 True), Plain (Lit ''. ''),
      Group (Rep AnyChar 1 False), Plain (Lit [NL]), Group (Rep AnyChar 0 False),
      Lookahead [[Lit (NL # ''## ''), One Digit],
                 [Lit (NL # ''---''), Rep Space 0 True, Lit (NL # ''## Methodology'')],
                 [Eos]]]"

text \<open>The loop of \<open>parse_thesis\<close> over the matches of the section pattern.\<close>

fun add_parsed_sections :: "re_match list \<Rightarrow> thesis_data \<Rightarrow> py_exception + thesis_data" where
  "add_parsed_sections [] data = Inr data"
| "add_parsed_sections (m # ms) data =
     (case group_text m 1 of
        Inl e \<Rightarrow> Inl e
      | Inr section_num \<Rightarrow>
          (case group_text m 2 of
             Inl e \<Rightarrow> Inl e
           | Inr g2 \<Rightarrow>
               (case group_text m 3 of
                  Inl e \<Rightarrow> Inl e
                | Inr g3 \<Rightarrow>
                    add_parsed_sections ms
                      (data\<lparr>sections := sections data @
                          [\<lparr>number = section_num, title = strip g2, content = strip g3\<rparr>]\<rparr>))))"

text \<open>One of the three optional fields: the first group of the match, stripped, if any.\<close>

definition first_group :: "item list \<Rightarrow> string \<Rightarrow> py_exception + string option" where
  "first_group p markdown =
     (case re_search p markdown of
        None \<Rightarrow> Inr None
      | Some m \<Rightarrow> (case group_text m 1 of Inl e \<Rightarrow> Inl e | Inr g \<Rightarrow> Inr (Some (strip g))))"

definition parse_thesis :: "string \<Rightarrow> py_exception + thesis_data" where
  "parse_thesis markdown =
     (let data = \<lparr>sector = [], region = ''US'', executive_summary = [], sections = []\<rparr> in
      case first_group region_pattern markdown of
        Inl e \<Rightarrow> Inl e
      | Inr region_match \<Rightarrow>
          (let data = (case region_match of None \<Rightarrow> data | Some g \<Rightarrow> data\<lparr>region := g\<rparr>) in
           case first_group sector_pattern markdown of
             Inl e \<Rightarrow> Inl e
           | Inr sector_match \<Rightarrow>
               (let data = (case sector_match of None \<Rightarrow> data | Some g \<Rightarrow> data\<lparr>sector := g\<rparr>) in
                case first_group summary_pattern markdown of
                  Inl e \<Rightarrow> Inl e
                | Inr exec_match \<Rightarrow>
                    (let data = (case exec_match of None \<Rightarrow> data
                                 | Some g \<Rightarrow> data\<lparr>executive_summary := g\<rparr>)
                     in add_parsed_sections (re_finditer section_pattern markdown) data))))"

text \<open>
  A thesis with the sections 1, 2 and 5, and a document whose first section header is
  followed at once by the header of the second section.
\<close>

definition gapped_markdown :: string where
  "gapped_markdown =
     ''# Thesis'' @ [NL] @ ''**Region**: EU '' @ [NL] @ ''## Fintech'' @ [NL, NL] @
     ''## Executive Summary'' @ [NL, NL] @ ''Sum.'' @ [NL] @ ''---'' @ [NL] @
     ''## 1. A'' @ [NL] @ ''a'' @ [NL, NL] @
     ''## 2. B'' @ [NL] @ ''b'' @ [NL, NL] @
     ''## 5. C'' @ [NL] @ ''c'' @ [NL]"

definition adjacent_markdown :: string where
  "adjacent_markdown = ''## 1. A'' @ [NL] @ ''## 2. B'' @ [NL] @ ''b''"

section \<open>FinalPass_agent: the grammar review\<close>



text \<open>\<open>SLIDE\s*(\d+)\<close>\<close>

definition slide_pattern :: "item list" where
  "slide_pattern = [Plain (Lit ''SLIDE''), Plain (Rep Space 0 True), Group (Rep Digit 1 True)]"









text \<open>The number of groups of a pattern.\<close>

fun is_group :: "item \<Rightarrow> bool" where
  "is_group (Group a) = True"
| "is_group (Plain a) = False"
| "is_group (Lookahead alts) = False"

definition n_groups :: "item list \<Rightarrow> nat" where
  "n_groups p = length (filter is_group p)"

text \<open>The section that the parser makes of a match of the section pattern.\<close>

definition section_of :: "re_match \<Rightarrow> section_rec" where
  "section_of m = \<lparr>number = m_groups m ! 0, title = strip (m_groups m ! 1),
                   content = strip (m_groups m ! 2)\<rparr>"

text \<open>The sections of a parse that returned, and their numbers.\<close>

definition parsed_sections :: "py_exception + thesis_data \<Rightarrow> section_rec list" where
  "parsed_sections r = (case r of Inl e \<Rightarrow> [] | Inr d \<Rightarrow> sections d)"

definition section_numbers :: "py_exception + thesis_data \<Rightarrow> string list" where
  "section_numbers r = map number (parsed_sections r)"





section \<open>Properties of the bullet loops\<close>

lemma collect_bullets_eq:
  "collect_bullets limit keep lines acc =
     acc @ map (\<lambda>l. let b = strip (drop 2 (strip l)) in
                       if length b > limit then take keep b @ ''...'' else b)
               (filter (\<lambda>l. startswith (strip l) ''- '') lines)"
  by (induction lines arbitrary: acc) (simp_all add: Let_def)

lemma pad_to_three_eq:
  "pad_to_three filler bullets = bullets @ replicate (3 - length bullets) filler"
proof (induction filler bullets rule: pad_to_three.induct)
  case (1 filler bullets)
  show ?case
  proof (cases "length bullets < 3")
    case True
    then have "3 - length bullets = Suc (3 - length (bullets @ [filler]))" by simp
    with True 1 show ?thesis
      by (subst pad_to_three.simps) (simp add: replicate_app_Cons_same)
  next
    case False
    then show ?thesis by (subst pad_to_three.simps) simp
  qed
qed

lemma parse_three_bullets_spec: "parse_three_bullets reply = spec_three_bullets reply"
  by (simp add: parse_three_bullets_def spec_three_bullets_def spec_collected_def
      cap_bullet_def collect_bullets_eq pad_to_three_eq Let_def)

lemma parse_three_bullets_length: "length (parse_three_bullets reply) = 3"
  by (simp add: parse_three_bullets_spec spec_three_bullets_def)




section \<open>Properties of the condensation\<close>

text \<open>
  C3. For every reply of the language model, the condensation operation of both deck
  builders returns exactly three bullets: the reply lines beginning with \<open>- \<close> are
  collected in order, a collected bullet longer than 120 characters is replaced by its
  first 117 characters followed by an ellipsis, and fewer than three collected bullets are
  padded to three with the filler ``Additional research pending''. A reply that the model
  returns makes the operation return, with one more call in the log.
\<close>

theorem condense_three_bullets:
  "length (parse_three_bullets reply) = 3
   \<and> parse_three_bullets reply =
       take 3 (spec_collected reply @
               replicate (3 - length (spec_collected reply)) ''Additional research pending'')
   \<and> (m log [SystemMessage vc_system_prompt, HumanMessage (vc_user_prompt body heading)]
          = Inr reply
        \<longrightarrow> condense_to_three_bullets m log body heading
            = Inr (parse_three_bullets reply,
                   log @ [[SystemMessage vc_system_prompt,
                           HumanMessage (vc_user_prompt body heading)]]))
   \<and> (m log [SystemMessage net_system_prompt, HumanMessage (net_user_prompt body heading)]
          = Inr reply
        \<longrightarrow> net_condense_to_three_bullets m log body heading
            = Inr (parse_three_bullets reply,
                   log @ [[SystemMessage net_system_prompt,
                           HumanMessage (net_user_prompt body heading)]]))"
  by (simp add: parse_three_bullets_length parse_three_bullets_spec [unfolded spec_three_bullets_def]
      condense_to_three_bullets_def net_condense_to_three_bullets_def invoke_def)

theorem condense_three_bullets_witness:
  "condense_to_three_bullets (\<lambda>log messages. Inr sample_reply) [] ''body'' ''Trends''
     = Inr ([''one'', ''three'', ''Additional research pending''],
            [[SystemMessage vc_system_prompt, HumanMessage (vc_user_prompt ''body'' ''Trends'')]])
   \<and> net_condense_to_three_bullets (\<lambda>log messages. Inr sample_reply) [] ''body'' ''Trends''
     = Inr ([''one'', ''three'', ''Additional research pending''],
            [[SystemMessage net_system_prompt, HumanMessage (net_user_prompt ''body'' ''Trends'')]])"
proof -
  have r: "spec_collected sample_reply = [''one'', ''three'']"
    by (simp add: sample_reply_def spec_collected_def cap_bullet_def NL_def strip_def
        lstrip_def rstrip_def isspace_def startswith_def)
  show ?thesis
    using condense_three_bullets
      [of sample_reply "\<lambda>log messages. Inr sample_reply" "[]" "''body''" "''Trends''"]
    by (simp add: r)
qed

section \<open>Properties of the deck builder\<close>

lemma fill_paragraphs_Suc: "fill_paragraphs (Suc i) bullets ps = ps @ bullets"
  by (induction bullets arbitrary: i ps) simp_all

lemma fill_paragraphs_0: "fill_paragraphs 0 bullets [[]] = (if bullets = [] then [[]] else bullets)"
  by (cases bullets) (simp_all add: fill_paragraphs_Suc)

lemma slide_bullets_content_slide:
  "bullets \<noteq> [] \<Longrightarrow> slide_bullets (content_slide t bullets) = bullets"
  by (simp add: slide_bullets_def content_slide_def fill_paragraphs_0)











section \<open>Properties of the bullet shortcut\<close>

lemma extract_lines_eq:
  "extract_lines lines acc =
     acc @ filter (\<lambda>b. b \<noteq> [])
             (map (\<lambda>l. strip (drop 2 (strip l)))
                  (filter (\<lambda>l. startswith (strip l) ''- '') lines))"
  by (induction lines arbitrary: acc) (simp_all add: Let_def)

lemma extract_lines_markdown: "extract_lines (split_nl body) [] = markdown_bullets body"
  by (simp add: extract_lines_eq markdown_bullets_def)

lemma condense_one_call:
  "condense_to_three_bullets m log c t = Inr (bs, log') \<Longrightarrow> length log' = Suc (length log)"
  by (auto simp: condense_to_three_bullets_def invoke_def split: sum.splits)

lemma add_section_slides_calls:
  "add_section_slides m log secs prs = Inr (prs', log') \<Longrightarrow>
     length log' = length log + length secs"
proof (induction secs arbitrary: log prs)
  case Nil
  then show ?case by simp
next
  case (Cons sec secs)
  from Cons.prems obtain bs log1 where
    c: "condense_to_three_bullets m log (content sec) (title sec) = Inr (bs, log1)"
    and r: "add_section_slides m log1 secs (add_content_slide prs (number sec @ ''. '' @ title sec) bs)
             = Inr (prs', log')"
    by (auto simp: Let_def split: sum.splits)
  from Cons.IH [OF r] condense_one_call [OF c] show ?case by simp
qed

lemma cap_bullet_short: "length b \<le> 120 \<Longrightarrow> cap_bullet b = b"
  by (simp add: cap_bullet_def)

text \<open>
  C2, as amended. In the networking deck builder, a section whose content holds exactly
  three non-empty markdown bullets, none longer than 120 characters, keeps those three
  bullets as they are (which is also what the length cap leaves of them), whatever the
  model would reply, and the log of model calls is unchanged: no call is made. The thesis
  deck builder has no such path: every run of its section loop that returns has made one
  model call per section.
\<close>

theorem extract_bullets_reuse:
  "(length (markdown_bullets body) = 3 \<and> (\<forall>b\<in>set (markdown_bullets body). length b \<le> 120)
      \<longrightarrow> extract_bullets m log body heading = Inr (markdown_bullets body, log)
          \<and> extract_bullets m log body heading
              = Inr (map cap_bullet (markdown_bullets body), log))
   \<and> (add_section_slides m log secs prs = Inr (prs', log')
      \<longrightarrow> length log' = length log + length secs)"
proof (intro conjI impI)
  assume a: "length (markdown_bullets body) = 3 \<and> (\<forall>b\<in>set (markdown_bullets body). length b \<le> 120)"
  then show e: "extract_bullets m log body heading = Inr (markdown_bullets body, log)"
    by (simp add: extract_bullets_def extract_lines_markdown)
  from a have "map cap_bullet (markdown_bullets body) = markdown_bullets body"
    by (simp add: map_idI cap_bullet_short)
  with e show "extract_bullets m log body heading = Inr (map cap_bullet (markdown_bullets body), log)"
    by simp
next
  assume "add_section_slides m log secs prs = Inr (prs', log')"
  then show "length log' = length log + length secs"
    by (rule add_section_slides_calls)
qed

lemma three_bullet_markdown: "markdown_bullets three_bullet_body = [''alpha'', ''beta'', ''gamma'']"
  by (simp add: markdown_bullets_def three_bullet_body_def NL_def strip_def lstrip_def rstrip_def
      isspace_def startswith_def)

theorem extract_bullets_reuse_witness:
  "extract_bullets silent_model [] three_bullet_body ''Trends'' = Inr ([''alpha'', ''beta'', ''gamma''], [])
   \<and> model_calls (add_section_slides silent_model [] (sections bulleted_thesis) []) = 1"
proof -
  have s: "add_section_slides silent_model [] (sections bulleted_thesis) []
        = Inr ([content_slide ''1. Trends'' (parse_three_bullets [])],
               [[SystemMessage vc_system_prompt, HumanMessage (vc_user_prompt three_bullet_body ''Trends'')]])"
    by (simp add: bulleted_thesis_def condense_to_three_bullets_def invoke_def silent_model_def
        add_content_slide_def Let_def)
  show ?thesis
    using extract_bullets_reuse [of three_bullet_body silent_model "[]" "''Trends''"
        "sections bulleted_thesis" "[]"
        "[content_slide ''1. Trends'' (parse_three_bullets [])]"
        "[[SystemMessage vc_system_prompt, HumanMessage (vc_user_prompt three_bullet_body ''Trends'')]]"]
    by (simp add: three_bullet_markdown s model_calls_def)
qed

text \<open>
  C2 as stated fails twice. The thesis deck builder calls the model for a section of
  exactly three bullet lines and shows the model's bullets, not the section's. The
  networking deck builder returns a bullet of 121 characters as it is.
\<close>

theorem three_bullets_reuse_counterexample:
  "model_calls (create_presentation silent_model [] ''November 2026'' bulleted_thesis) = 1
   \<and> shown_bullets 1 (create_presentation silent_model [] ''November 2026'' bulleted_thesis)
       = Some [''Additional research pending'', ''Additional research pending'',
               ''Additional research pending'']
   \<and> markdown_bullets three_bullet_body = [''alpha'', ''beta'', ''gamma'']
   \<and> returned (extract_bullets silent_model [] long_bullet_body ''Trends'')
       = Some [replicate 121 (CHR ''x''), ''beta'', ''gamma'']"
proof -
  have p: "parse_three_bullets [] = [''Additional research pending'', ''Additional research pending'',
               ''Additional research pending'']"
    by (simp add: parse_three_bullets_spec spec_three_bullets_def spec_collected_def strip_def
        lstrip_def rstrip_def startswith_def numeral_3_eq_3)
  have c: "create_presentation silent_model [] ''November 2026'' bulleted_thesis
      = Inr (add_closing_slide (add_content_slide (add_title_slide [] ''B2B Fintech'' ''US'' ''November 2026'')
               ''1. Trends'' (parse_three_bullets [])) ''B2B Fintech'' ''November 2026'',
             [[SystemMessage vc_system_prompt, HumanMessage (vc_user_prompt three_bullet_body ''Trends'')]])"
    by (simp add: create_presentation_def bulleted_thesis_def condense_to_three_bullets_def
        invoke_def silent_model_def Let_def)
  have l: "markdown_bullets long_bullet_body = [replicate 121 (CHR ''x''), ''beta'', ''gamma'']"
    by code_simp
  show ?thesis
    by (simp add: c p model_calls_def returned_def shown_bullets_def add_closing_slide_def add_content_slide_def
        add_title_slide_def slide_bullets_content_slide three_bullet_markdown
        extract_bullets_def extract_lines_markdown l)
qed

section \<open>Properties of the search client\<close>



section \<open>Properties of the content extraction\<close>

lemma strip_Nil_iff: "strip s = [] \<longleftrightarrow> (\<forall>c\<in>set s. isspace c)"
proof
  assume e: "strip s = []"
  show "\<forall>c\<in>set s. isspace c"
  proof (rule ccontr)
    assume "\<not> (\<forall>c\<in>set s. isspace c)"
    then have n: "dropWhile isspace s \<noteq> []" by simp
    then have "\<not> isspace (hd (dropWhile isspace s))" by (rule hd_dropWhile)
    moreover have "hd (dropWhile isspace s) \<in> set (rev (dropWhile isspace s))"
      using n by simp
    ultimately have "dropWhile isspace (rev (dropWhile isspace s)) \<noteq> []"
      by auto
    with e show False by (simp add: strip_def lstrip_def rstrip_def)
  qed
next
  assume "\<forall>c\<in>set s. isspace c"
  then have d: "dropWhile isspace s = []" by simp
  show "strip s = []" unfolding strip_def lstrip_def rstrip_def d by simp
qed

lemma scan_paragraphs_eq:
  "scan_paragraphs ps tx count =
     (tx @ concat (map (\<lambda>p. strip p @ [NL]) (filter (\<lambda>p. strip p \<noteq> []) ps)),
      count + length (filter (\<lambda>p. length (strip p) > 10) ps))"
proof (induction ps arbitrary: tx count)
  case Nil
  then show ?case by simp
next
  case (Cons p ps)
  then show ?case by (cases "strip p = []") (simp_all add: Let_def)
qed

lemma scan_paragraphs_blank:
  assumes "scan_paragraphs ps [] 0 = (tx, count)" and "strip tx = []"
  shows "count = 0"
proof -
  from assms(1) have t: "tx = concat (map (\<lambda>p. strip p @ [NL]) (filter (\<lambda>p. strip p \<noteq> []) ps))"
    and c: "count = length (filter (\<lambda>p. length (strip p) > 10) ps)"
    by (simp_all add: scan_paragraphs_eq)
  have "filter (\<lambda>p. strip p \<noteq> []) ps = []"
  proof (rule ccontr)
    assume "filter (\<lambda>p. strip p \<noteq> []) ps \<noteq> []"
    then obtain p where p: "p \<in> set ps" "strip p \<noteq> []"
      by (auto simp: filter_empty_conv)
    then have "\<not> (\<forall>c\<in>set (strip p). isspace c)"
      using strip_Nil_iff [of "strip p"]
      by (metis strip_Nil_iff strip_def lstrip_def rstrip_def dropWhile_eq_Nil_conv hd_dropWhile
          hd_in_set set_rev rev_is_Nil_conv)
    then obtain c where c: "c \<in> set (strip p)" "\<not> isspace c" by blast
    with p have "c \<in> set tx" unfolding t by auto
    with c(2) assms(2) show False by (auto simp: strip_Nil_iff)
  qed
  then have "\<forall>p\<in>set ps. strip p = []" by (simp add: filter_empty_conv)
  then show ?thesis unfolding c by (simp add: filter_empty_conv)
qed

lemma scan_shapes_count:
  "bullet_count (scan_shapes tp i shs sd) = bullet_count sd + sum_list (map countable shs)
   \<and> slide_number (scan_shapes tp i shs sd) = slide_number sd"
proof (induction shs arbitrary: i sd)
  case Nil
  then show ?case by simp
next
  case (Cons sh shs)
  show ?case
  proof (cases "text_frame sh")
    case None
    then show ?thesis using Cons by (simp add: Let_def countable_def)
  next
    case (Some ps)
    obtain tx count where s: "scan_paragraphs ps [] 0 = (tx, count)" by fastforce
    then have c: "count = countable sh" by (simp add: scan_paragraphs_eq countable_def Some)
    show ?thesis
    proof (cases "strip tx = []")
      case True
      with s have "count = 0" by (rule scan_paragraphs_blank)
      with True Some s c Cons show ?thesis by (simp add: Let_def)
    next
      case False
      with Some s c Cons show ?thesis by (simp add: Let_def)
    qed
  qed
qed

lemma slide_content_count:
  "bullet_count (slide_content i sl) = sum_list (map countable (shapes sl))
   \<and> slide_number (slide_content i sl) = i + 1"
  using scan_shapes_count [of "title_shape sl" 0 "shapes sl"]
  by (simp add: slide_content_def)

lemma extract_slides_eq:
  "extract_slides i prs acc = acc @ map (\<lambda>j. slide_content (i + j) (prs ! j)) [0..<length prs]"
proof (induction prs arbitrary: i acc)
  case Nil
  then show ?case by simp
next
  case (Cons sl sls)
  have "map (\<lambda>j. slide_content (i + j) ((sl # sls) ! j)) [0..<length (sl # sls)]
      = slide_content i sl # map (\<lambda>j. slide_content (Suc i + j) (sls ! j)) [0..<length sls]"
    by (simp add: map_upt_Suc del: upt_Suc)
  with Cons show ?case by simp
qed

lemma extract_slide_content_nth:
  "length (extract_slide_content prs) = length prs"
  "k < length prs \<Longrightarrow> extract_slide_content prs ! k = slide_content k (prs ! k)"
  by (simp_all add: extract_slide_content_def extract_slides_eq)

lemma split_nl_single: "NL \<notin> set t \<Longrightarrow> split_nl t = [t]"
  by (induction t) auto

text \<open>
  C10. The content extraction counts, for a slide, every paragraph whose stripped text is
  longer than 10 characters, in every shape that has a text frame, the title placeholder
  included. So a content slide whose title is longer than 10 characters and whose body
  has three bullets longer than 10 characters has a bullet count of 4.
\<close>

theorem bullet_count_includes_title:
  "(k < length prs \<longrightarrow>
      bullet_count (extract_slide_content prs ! k) = sum_list (map countable (shapes (prs ! k))))
   \<and> (NL \<notin> set heading \<and> length (strip heading) > 10 \<and> length bs = 3
        \<and> (\<forall>b\<in>set bs. length (strip b) > 10)
      \<longrightarrow> bullet_count (slide_content i (content_slide heading bs)) = 4)"
proof (intro conjI impI)
  assume "k < length prs"
  then show "bullet_count (extract_slide_content prs ! k) = sum_list (map countable (shapes (prs ! k)))"
    by (simp add: extract_slide_content_nth slide_content_count)
next
  assume a: "NL \<notin> set heading \<and> length (strip heading) > 10 \<and> length bs = 3
        \<and> (\<forall>b\<in>set bs. length (strip b) > 10)"
  then have "bs \<noteq> []" by auto
  with a show "bullet_count (slide_content i (content_slide heading bs)) = 4"
    by (simp add: slide_content_count content_slide_def countable_def split_nl_single
        fill_paragraphs_0)
qed

theorem bullet_count_includes_title_witness:
  "bullet_count (extract_slide_content two_bullet_deck ! 1) = 4
   \<and> bullet_count (slide_content 1 (content_slide ''Executive Summary''
         [''Payments move to real time'', ''Margins stay thin'', ''Regulation tightens''])) = 4"
proof -
  have s: "strip ''Executive Summary'' = ''Executive Summary''"
    "strip ''Payments move to real time'' = ''Payments move to real time''"
    "strip ''Margins stay thin'' = ''Margins stay thin''"
    "strip ''Regulation tightens'' = ''Regulation tightens''"
    by (simp_all add: strip_def lstrip_def rstrip_def isspace_def)
  have d: "two_bullet_deck ! Suc 0 = content_slide ''Executive Summary''
         [''Payments move to real time'', ''Margins stay thin'', ''Regulation tightens'']"
    by (simp add: two_bullet_deck_def add_closing_slide_def add_content_slide_def add_title_slide_def)
  have l: "1 < length two_bullet_deck"
    by (simp add: two_bullet_deck_def add_closing_slide_def add_content_slide_def add_title_slide_def)
  have c: "sum_list (map countable (shapes (content_slide ''Executive Summary''
         [''Payments move to real time'', ''Margins stay thin'', ''Regulation tightens'']))) = 4"
    by (simp add: content_slide_def countable_def s NL_def)
  show ?thesis
    using bullet_count_includes_title [of 1 two_bullet_deck "''Executive Summary''"
        "[''Payments move to real time'', ''Margins stay thin'', ''Regulation tightens'']" 1] l
    by (simp add: d c s NL_def)
qed

section \<open>Properties of the bullet-count check\<close>

lemma bullet_count_loop_eq:
  "bullet_count_loop n sds issues = issues @ concat (map (bullet_count_rule n) sds)"
  by (induction sds arbitrary: issues) (simp_all add: Let_def bullet_count_rule_def)

lemma bullet_count_rule_num: "q \<in> set (bullet_count_rule n sd) \<Longrightarrow> slide_num q = slide_number sd"
  by (auto simp: bullet_count_rule_def QAIssue_def split: if_splits)

lemma issues_about_other:
  "slide_number sd \<noteq> k \<Longrightarrow> issues_about k (bullet_count_rule n sd) = []"
  by (auto simp: issues_about_def filter_empty_conv dest: bullet_count_rule_num)

lemma issues_about_same:
  "issues_about (slide_number sd) (bullet_count_rule n sd) = bullet_count_rule n sd"
  by (auto simp: issues_about_def filter_id_conv dest: bullet_count_rule_num)

lemma issues_about_append: "issues_about k (xs @ ys) = issues_about k xs @ issues_about k ys"
  by (simp add: issues_about_def)

lemma issues_about_slides:
  "issues_about (Suc k) (concat (map (\<lambda>j. bullet_count_rule n (slide_content (i + j) (prs ! j)))
                                  [0..<length prs]))
     = (if i \<le> k \<and> k < i + length prs then bullet_count_rule n (slide_content k (prs ! (k - i)))
        else [])"
proof (induction prs arbitrary: i)
  case Nil
  then show ?case by (auto simp: issues_about_def)
next
  case (Cons sl sls)
  have m: "map (\<lambda>j. bullet_count_rule n (slide_content (i + j) ((sl # sls) ! j))) [0..<length (sl # sls)]
      = bullet_count_rule n (slide_content i sl)
        # map (\<lambda>j. bullet_count_rule n (slide_content (Suc i + j) (sls ! j))) [0..<length sls]"
    by (simp add: map_upt_Suc del: upt_Suc)
  have num: "slide_number (slide_content i sl) = Suc i" by (simp add: slide_content_count)
  show ?case
  proof (cases "k = i")
    case True
    with Cons [of "Suc i"] num issues_about_same [of "slide_content i sl" n] show ?thesis
      unfolding m by (simp add: issues_about_append)
  next
    case False
    then have "issues_about (Suc k) (bullet_count_rule n (slide_content i sl)) = []"
      using num by (intro issues_about_other) simp
    with False Cons [of "Suc i"] show ?thesis
      unfolding m by (auto simp: issues_about_append Suc_diff_le)
  qed
qed

text \<open>
  C4, as amended. The bullet-count check exempts slide 1, slide 2 and the last slide by
  their index. About any other slide it raises exactly one warning \<open>too_few_bullets\<close> when
  the slide has fewer than 2 countable bullets, exactly one warning \<open>too_many_bullets\<close>
  when it has more than 6 (so for 7), and no issue when it has 2 to 6. The issues already
  recorded are kept.
\<close>

theorem bullet_count_check:
  "k < length prs \<longrightarrow>
     (\<exists>new. validate_bullet_count (extract_slide_content prs) issues = issues @ new
        \<and> issues_about (k + 1) new =
            (let count = bullet_count (extract_slide_content prs ! k) in
             if k + 1 = 1 \<or> k + 1 = 2 \<or> k + 1 = length prs then []
             else if count < 2 then
               [QAIssue (k + 1) ''too_few_bullets''
                  (''Slide has only '' @ str_nat count @ '' bullet(s), recommend at least 3'')
                  ''warning'']
             else if 6 < count then
               [QAIssue (k + 1) ''too_many_bullets''
                  (''Slide has '' @ str_nat count @ '' bullets, may be overcrowded'')
                  ''warning'']
             else []))"
proof
  assume k: "k < length prs"
  let ?new = "concat (map (bullet_count_rule (length prs)) (extract_slide_content prs))"
  have v: "validate_bullet_count (extract_slide_content prs) issues = issues @ ?new"
    by (simp add: validate_bullet_count_def bullet_count_loop_eq extract_slide_content_nth)
  have "issues_about (Suc k) ?new = bullet_count_rule (length prs) (slide_content k (prs ! k))"
    using issues_about_slides [of k "length prs" 0 prs] k
    by (simp add: extract_slide_content_def extract_slides_eq comp_def)
  then have "issues_about (k + 1) ?new =
            (let count = bullet_count (extract_slide_content prs ! k) in
             if k + 1 = 1 \<or> k + 1 = 2 \<or> k + 1 = length prs then []
             else if count < 2 then
               [QAIssue (k + 1) ''too_few_bullets''
                  (''Slide has only '' @ str_nat count @ '' bullet(s), recommend at least 3'')
                  ''warning'']
             else if 6 < count then
               [QAIssue (k + 1) ''too_many_bullets''
                  (''Slide has '' @ str_nat count @ '' bullets, may be overcrowded'')
                  ''warning'']
             else [])"
    using k by (simp add: bullet_count_rule_def extract_slide_content_nth slide_content_count Let_def)
  with v show "\<exists>new. validate_bullet_count (extract_slide_content prs) issues = issues @ new
        \<and> issues_about (k + 1) new =
            (let count = bullet_count (extract_slide_content prs ! k) in
             if k + 1 = 1 \<or> k + 1 = 2 \<or> k + 1 = length prs then []
             else if count < 2 then
               [QAIssue (k + 1) ''too_few_bullets''
                  (''Slide has only '' @ str_nat count @ '' bullet(s), recommend at least 3'')
                  ''warning'']
             else if 6 < count then
               [QAIssue (k + 1) ''too_many_bullets''
                  (''Slide has '' @ str_nat count @ '' bullets, may be overcrowded'')
                  ''warning'']
             else [])"
    by blast
qed

theorem bullet_count_check_witness:
  "issues_about 3 (validate_bullet_count (extract_slide_content sparse_deck) [])
     = [QAIssue 3 ''too_few_bullets'' ''Slide has only 0 bullet(s), recommend at least 3'' ''warning'']"
proof -
  have l: "length sparse_deck = 4" "sparse_deck ! 2 = content_slide ''1. Trends'' [''Short'']"
    by (simp_all add: sparse_deck_def add_closing_slide_def add_content_slide_def add_title_slide_def)
  have s: "strip ''1. Trends'' = ''1. Trends''" "strip ''Short'' = ''Short''"
    by (simp_all add: strip_def lstrip_def rstrip_def isspace_def)
  have c: "bullet_count (extract_slide_content sparse_deck ! 2) = 0"
    by (simp add: extract_slide_content_nth l slide_content_count content_slide_def countable_def
        s NL_def)
  have n: "str_nat 0 = ''0''"
    by code_simp
  from bullet_count_check [of 2 sparse_deck "[]"] obtain new where
    "validate_bullet_count (extract_slide_content sparse_deck) [] = new"
    "issues_about 3 new
       = [QAIssue 3 ''too_few_bullets'' ''Slide has only 0 bullet(s), recommend at least 3'' ''warning'']"
    by (auto simp: l c n)
  then show ?thesis by simp
qed

text \<open>
  C4 as stated fails at two countable bullets: the third of four slides has a title and
  one paragraph, both longer than 10 characters, and the check raises nothing about it.
\<close>

theorem two_bullets_counterexample:
  "bullet_count (extract_slide_content two_bullet_deck ! 2) = 2
   \<and> issues_about 3 (validate_bullet_count (extract_slide_content two_bullet_deck) []) = []"
  by code_simp

section \<open>Properties of the fixes\<close>















lemma sparse_fixes:
  "returned (generate_fixes fixing_model [] (extract_slide_content sparse_deck))
     = Some [(3, \<lparr>original = ''1. Trends'' @ [NL] @ ''Short'' @ [NL],
                  fixed_text = ''- one'' @ [NL] @ ''- two'' @ [NL] @ ''- three''\<rparr>)]"
  by code_simp


section \<open>Properties of the matcher\<close>

lemma try_all_None: "try_all f xs = None \<longleftrightarrow> (\<forall>x\<in>set xs. f x = None)"
  by (induction xs) (auto split: option.splits)

lemma try_all_Some: "try_all f xs = Some y \<Longrightarrow> \<exists>x\<in>set xs. f x = Some y"
  by (induction xs) (auto split: option.splits)

lemma try_all_single: "try_all f [x] = f x"
  by (cases "f x") simp_all

lemma atom_lengths_le: "n \<in> set (atom_lengths a prev s) \<Longrightarrow> n \<le> length s"
proof (cases a)
  case (Lit l)
  assume "n \<in> set (atom_lengths a prev s)"
  with Lit show ?thesis by (auto simp: prefix_def split: if_splits)
next
  case (One c)
  assume "n \<in> set (atom_lengths a prev s)"
  with One show ?thesis by (auto split: list.splits if_splits)
next
  case (Rep c k g)
  assume "n \<in> set (atom_lengths a prev s)"
  with Rep have "n \<le> length (takeWhile (in_class c) s)"
    by (auto simp: Let_def split: if_splits)
  then show ?thesis using length_takeWhile_le [of "in_class c" s] by simp
next
  case Bol
  assume "n \<in> set (atom_lengths a prev s)"
  with Bol show ?thesis by (auto split: if_splits)
next
  case Eol
  assume "n \<in> set (atom_lengths a prev s)"
  with Eol show ?thesis by (auto split: list.splits if_splits)
next
  case Eos
  assume "n \<in> set (atom_lengths a prev s)"
  with Eos show ?thesis by (auto split: if_splits)
qed

lemma match_items_groups:
  "match_items p prev s = Some (gs, k) \<Longrightarrow> length gs = n_groups p \<and> k \<le> length s"
proof (induction p arbitrary: prev s gs k)
  case Nil
  then show ?case by (simp add: n_groups_def)
next
  case (Cons it its)
  show ?case
  proof (cases it)
    case (Plain a)
    with Cons.prems obtain n gs' k' where n: "n \<in> set (atom_lengths a prev s)"
      and m: "match_items its (advance prev s n) (drop n s) = Some (gs', k')"
      and e: "gs = gs'" "k = n + k'"
      by (auto dest!: try_all_Some split: option.splits)
    from Cons.IH [OF m] atom_lengths_le [OF n] e Plain show ?thesis
      by (auto simp: n_groups_def)
  next
    case (Group a)
    with Cons.prems obtain n gs' k' where n: "n \<in> set (atom_lengths a prev s)"
      and m: "match_items its (advance prev s n) (drop n s) = Some (gs', k')"
      and e: "gs = take n s # gs'" "k = n + k'"
      by (auto dest!: try_all_Some split: option.splits)
    from Cons.IH [OF m] atom_lengths_le [OF n] e Group show ?thesis
      by (auto simp: n_groups_def)
  next
    case (Lookahead alts)
    with Cons.prems have "match_items its prev s = Some (gs, k)"
      by (auto split: if_splits)
    from Cons.IH [OF this] Lookahead show ?thesis by (simp add: n_groups_def)
  qed
qed

lemma last_char_snoc:
  "(case xs @ [c] of [] \<Rightarrow> p | x # ys \<Rightarrow> Some x) = (case xs of [] \<Rightarrow> Some c | x # ys \<Rightarrow> Some x)"
  by (cases xs) simp_all

lemma advance_Cons: "advance prev (c # cs) (Suc i) = advance (Some c) cs i"
  by (simp add: advance_def last_char_snoc)

lemma search_from_match:
  "search_from p pos prev s = Some m \<Longrightarrow>
     \<exists>i\<le>length s. m_start m = pos + i
        \<and> match_items p (advance prev s i) (drop i s) = Some (m_groups m, m_end m - m_start m)
        \<and> m_start m \<le> m_end m"
proof (induction s arbitrary: pos prev)
  case Nil
  then show ?case by (auto simp: advance_def split: option.splits)
next
  case (Cons c cs)
  show ?case
  proof (cases "match_items p prev (c # cs)")
    case (Some r)
    with Cons.prems show ?thesis
      by (intro exI [of _ 0]) (auto simp: advance_def split: prod.splits)
  next
    case None
    with Cons.prems have "search_from p (pos + 1) (Some c) cs = Some m" by simp
    from Cons.IH [OF this] obtain i where i: "i \<le> length cs" "m_start m = pos + 1 + i"
      "match_items p (advance (Some c) cs i) (drop i cs) = Some (m_groups m, m_end m - m_start m)"
      "m_start m \<le> m_end m"
      by blast
    from i advance_Cons [of prev c cs i] show ?thesis
      by (intro exI [of _ "Suc i"]) simp
  qed
qed

lemma search_from_groups:
  assumes "search_from p pos prev s = Some m"
  shows "length (m_groups m) = n_groups p" and "m_end m \<le> pos + length s" and "pos \<le> m_start m"
proof -
  from search_from_match [OF assms] obtain i where i: "i \<le> length s" "m_start m = pos + i"
    "match_items p (advance prev s i) (drop i s) = Some (m_groups m, m_end m - m_start m)"
    "m_start m \<le> m_end m"
    by blast
  from match_items_groups [OF i(3)] i
  show "length (m_groups m) = n_groups p" "m_end m \<le> pos + length s" "pos \<le> m_start m"
    by auto
qed

lemma finditer_from_groups:
  "m \<in> set (finditer_from p pos prev s) \<Longrightarrow> length (m_groups m) = n_groups p"
proof (induction p pos prev s rule: finditer_from.induct)
  case (1 p pos prev s)
  show ?case
  proof (cases "search_from p pos prev s")
    case None
    with "1.prems" show ?thesis by (simp add: finditer_from.simps)
  next
    case (Some m')
    show ?thesis
    proof (cases "m = m'")
      case True
      with Some show ?thesis by (simp add: search_from_groups)
    next
      case False
      with Some "1.prems" have "\<not> length s < next_step pos m'"
        and "m \<in> set (finditer_from p (pos + next_step pos m')
                        (advance prev s (next_step pos m')) (drop (next_step pos m') s))"
        by (auto simp: finditer_from.simps [of p pos prev s] Let_def split: if_splits)
      with "1.IH" [OF Some refl] show ?thesis by simp
    qed
  qed
qed

lemma search_from_None:
  "(\<And>prev s. match_items p prev s \<noteq> None \<Longrightarrow> prefix l s) \<Longrightarrow> \<not> sublist l s \<Longrightarrow>
     search_from p pos prev s = None"
proof (induction s arbitrary: pos prev)
  case Nil
  then have "match_items p prev [] = None" by (metis prefix_imp_sublist)
  then show ?case by simp
next
  case (Cons c cs)
  from Cons.prems have "match_items p prev (c # cs) = None" by (metis prefix_imp_sublist)
  moreover from Cons.prems(2) have "\<not> sublist l cs" by (auto simp: sublist_Cons_right)
  ultimately show ?case using Cons.IH [OF Cons.prems(1)] by simp
qed

lemma match_Lit_prefix:
  "match_items (Plain (Lit l) # its) prev s \<noteq> None \<Longrightarrow> prefix l s"
  by (auto simp: try_all_None split: if_splits)

lemma match_Bol_Lit_prefix:
  "match_items (Plain Bol # Plain (Lit l) # its) prev s \<noteq> None \<Longrightarrow> prefix l s"
  by (auto simp: try_all_None advance_def split: if_splits)


section \<open>Properties of the document parser\<close>

lemma first_group_total:
  assumes "1 \<le> n_groups p"
  shows "first_group p md =
           Inr (case re_search p md of None \<Rightarrow> None | Some m \<Rightarrow> Some (strip (m_groups m ! 0)))"
proof (cases "re_search p md")
  case None
  then show ?thesis by (simp add: first_group_def)
next
  case (Some m)
  then have "length (m_groups m) = n_groups p"
    unfolding re_search_def by (rule search_from_groups)
  with assms Some show ?thesis by (simp add: first_group_def group_text_def)
qed

lemma add_parsed_sections_eq:
  "\<forall>m\<in>set ms. length (m_groups m) = 3 \<Longrightarrow>
     add_parsed_sections ms data = Inr (data\<lparr>sections := sections data @ map section_of ms\<rparr>)"
proof (induction ms arbitrary: data)
  case Nil
  then show ?case by simp
next
  case (Cons m ms)
  then have "length (m_groups m) = 3" by simp
  then have g: "group_text m 1 = Inr (m_groups m ! 0)" "group_text m 2 = Inr (m_groups m ! 1)"
    "group_text m 3 = Inr (m_groups m ! 2)"
    by (simp_all add: group_text_def numeral_2_eq_2)
  from Cons have "add_parsed_sections ms (data\<lparr>sections := sections data @ [section_of m]\<rparr>)
      = Inr (data\<lparr>sections := sections data @ [section_of m] @ map section_of ms\<rparr>)"
    by simp
  with g show ?case by (simp add: section_of_def)
qed

lemma pattern_groups:
  "n_groups region_pattern = 1" "n_groups sector_pattern = 1" "n_groups summary_pattern = 1"
  "n_groups section_pattern = 3" "n_groups slide_pattern = 1"
  by (simp_all add: n_groups_def region_pattern_def sector_pattern_def summary_pattern_def
      section_pattern_def slide_pattern_def)

lemma parse_thesis_eq:
  "parse_thesis md =
     Inr \<lparr>sector = (case re_search sector_pattern md of
                      None \<Rightarrow> [] | Some m \<Rightarrow> strip (m_groups m ! 0)),
          region = (case re_search region_pattern md of
                      None \<Rightarrow> ''US'' | Some m \<Rightarrow> strip (m_groups m ! 0)),
          executive_summary = (case re_search summary_pattern md of
                      None \<Rightarrow> [] | Some m \<Rightarrow> strip (m_groups m ! 0)),
          sections = map section_of (re_finditer section_pattern md)\<rparr>"
proof -
  have "\<forall>m\<in>set (re_finditer section_pattern md). length (m_groups m) = 3"
    by (simp add: re_finditer_def finditer_from_groups pattern_groups)
  then show ?thesis
    by (simp add: parse_thesis_def first_group_total pattern_groups add_parsed_sections_eq
        Let_def split: option.splits)
qed

lemma absent_literal:
  "\<not> contains md ''**Region**:'' \<Longrightarrow> re_search region_pattern md = None"
  "\<not> contains md ''## '' \<Longrightarrow> re_search sector_pattern md = None"
  "\<not> contains md ''## Executive Summary'' \<Longrightarrow> re_search summary_pattern md = None"
  "\<not> contains md ''## '' \<Longrightarrow> re_finditer section_pattern md = []"
proof -
  show "\<not> contains md ''**Region**:'' \<Longrightarrow> re_search region_pattern md = None"
    unfolding re_search_def contains_def region_pattern_def
    by (rule search_from_None [OF match_Lit_prefix])
  show "\<not> contains md ''## '' \<Longrightarrow> re_search sector_pattern md = None"
    unfolding re_search_def contains_def sector_pattern_def
    by (rule search_from_None [OF match_Bol_Lit_prefix])
  show "\<not> contains md ''## Executive Summary'' \<Longrightarrow> re_search summary_pattern md = None"
    unfolding re_search_def contains_def summary_pattern_def
    by (rule search_from_None [OF match_Lit_prefix])
  have "\<not> contains md ''## '' \<Longrightarrow> search_from section_pattern 0 None md = None"
    unfolding contains_def section_pattern_def
    by (rule search_from_None [OF match_Lit_prefix])
  then show "\<not> contains md ''## '' \<Longrightarrow> re_finditer section_pattern md = []"
    by (simp add: re_finditer_def finditer_from.simps)
qed

lemma match_Plain_Lit:
  assumes "match_items (Plain (Lit l) # its) prev s = Some (gs, k)"
  shows "prefix l s \<and> (\<exists>k'. match_items its (advance prev s (length l)) (drop (length l) s)
                               = Some (gs, k') \<and> k = length l + k')"
proof (cases "prefix l s")
  case False
  then have "atom_lengths (Lit l) prev s = []" by simp
  with assms show ?thesis by (simp only: match_items.simps try_all.simps) simp
next
  case True
  then have "atom_lengths (Lit l) prev s = [length l]" by simp
  with assms have "(case match_items its (advance prev s (length l)) (drop (length l) s) of
                     None \<Rightarrow> None | Some (gs, k) \<Rightarrow> Some (gs, length l + k)) = Some (gs, k)"
    by (simp only: match_items.simps try_all_single)
  with True show ?thesis by (auto split: option.splits)
qed

lemma take_takeWhile:
  "j \<le> length (takeWhile P xs) \<Longrightarrow> set (take j xs) \<subseteq> {x. P x}"
proof -
  assume j: "j \<le> length (takeWhile P xs)"
  have "take j (takeWhile P xs @ dropWhile P xs) = take j (takeWhile P xs)"
    using j by (simp only: take_append) simp
  then have "take j xs = take j (takeWhile P xs)" by simp
  then have "set (take j xs) \<subseteq> set (takeWhile P xs)" by (simp add: set_take_subset)
  then show ?thesis by (auto dest: set_takeWhileD)
qed

lemma match_Group_Digit:
  assumes "match_items (Group (Rep Digit (Suc 0) g) # its) prev s = Some (gs, k)"
  shows "\<exists>j gs' k'. Suc 0 \<le> j \<and> j \<le> length s \<and> (\<forall>c\<in>set (take j s). isdigit c)
            \<and> gs = take j s # gs' \<and> k = j + k'
            \<and> match_items its (advance prev s j) (drop j s) = Some (gs', k')"
proof -
  have i: "in_class Digit = isdigit" by (rule ext) simp
  from assms obtain j where j: "j \<in> set (atom_lengths (Rep Digit (Suc 0) g) prev s)"
    and m: "(case match_items its (advance prev s j) (drop j s) of
               None \<Rightarrow> None | Some (gs, k) \<Rightarrow> Some (take j s # gs, j + k)) = Some (gs, k)"
    by (auto simp only: match_items.simps dest!: try_all_Some)
  from j have b: "Suc 0 \<le> j" "j \<le> length (takeWhile isdigit s)"
    by (auto simp: i Let_def split: if_splits)
  from b(2) have d: "\<forall>c\<in>set (take j s). isdigit c"
    using take_takeWhile [of j isdigit s] by auto
  from b(2) have l: "j \<le> length s" using length_takeWhile_le [of isdigit s] by simp
  from m obtain gs' k' where "match_items its (advance prev s j) (drop j s) = Some (gs', k')"
    "gs = take j s # gs'" "k = j + k'"
    by (auto split: option.splits)
  with b(1) l d show ?thesis by blast
qed

lemma section_match_header:
  assumes "match_items section_pattern prev s = Some (gs, k)"
  shows "gs ! 0 \<noteq> [] \<and> (\<forall>c\<in>set (gs ! 0). isdigit c)
         \<and> prefix (''## '' @ gs ! 0 @ ''. '') s"
proof -
  let ?its = "[Group (Rep AnyChar 1 False), Plain (Lit [NL]), Group (Rep AnyChar 0 False),
      Lookahead [[Lit (NL # ''## ''), One Digit],
                 [Lit (NL # ''---''), Rep Space 0 True, Lit (NL # ''## Methodology'')],
                 [Eos]]]"
  have p: "section_pattern = Plain (Lit ''## '') # Group (Rep Digit (Suc 0) True)
                               # Plain (Lit ''. '') # ?its"
    by (simp add: section_pattern_def)
  from assms [unfolded p] match_Plain_Lit obtain k1 where
    h: "prefix ''## '' s"
    and m1: "match_items (Group (Rep Digit (Suc 0) True) # Plain (Lit ''. '') # ?its)
               (advance prev s (length ''## '')) (drop (length ''## '') s) = Some (gs, k1)"
    by blast
  let ?r = "drop (length ''## '') s"
  from match_Group_Digit [OF m1] obtain j gs' k2 where
    j: "Suc 0 \<le> j" "j \<le> length ?r" "\<forall>c\<in>set (take j ?r). isdigit c" "gs = take j ?r # gs'"
    and m2: "match_items (Plain (Lit ''. '') # ?its)
               (advance (advance prev s (length ''## '')) ?r j) (drop j ?r) = Some (gs', k2)"
    by blast
  from match_Plain_Lit [OF m2] have d: "prefix ''. '' (drop j ?r)" by blast
  from j have g: "gs ! 0 = take j ?r" "gs ! 0 \<noteq> []" by auto
  from h obtain z1 where z1: "s = ''## '' @ z1" by (auto simp: prefix_def)
  then have r: "?r = z1" by simp
  from d obtain z2 where z2: "drop j ?r = ''. '' @ z2" by (auto simp: prefix_def)
  then have z2': "drop j z1 = ''. '' @ z2" unfolding r .
  from g(1) have g': "take j z1 = gs ! 0" unfolding r by (rule sym)
  have "take j z1 @ drop j z1 = z1" by (rule append_take_drop_id)
  then have e: "gs ! 0 @ ''. '' @ z2 = z1" unfolding z2' g' .
  have "s = ''## '' @ (gs ! 0 @ ''. '' @ z2)" unfolding e by (rule z1)
  then have "s = (''## '' @ gs ! 0 @ ''. '') @ z2" by simp
  then have "prefix (''## '' @ gs ! 0 @ ''. '') s" by (rule prefixI)
  with g j show ?thesis by simp
qed

lemma next_step_after:
  assumes "pos \<le> m_start m" "m_start m \<le> m_end m"
  shows "m_start m < pos + next_step pos m"
  using assms by (auto simp: next_step_def)

lemma finditer_from_ordered:
  "s = drop pos md \<Longrightarrow>
     sorted_wrt (\<lambda>a b. m_start a < m_start b) (finditer_from p pos prev s)
     \<and> (\<forall>m\<in>set (finditer_from p pos prev s).
           pos \<le> m_start m
           \<and> (\<exists>pv. match_items p pv (drop (m_start m) md)
                      = Some (m_groups m, m_end m - m_start m)))"
proof (induction p pos prev s rule: finditer_from.induct)
  case (1 p pos prev s)
  show ?case
  proof (cases "search_from p pos prev s")
    case None
    then show ?thesis by (simp add: finditer_from.simps)
  next
    case (Some m')
    from search_from_match [OF Some] obtain i where i: "i \<le> length s" "m_start m' = pos + i"
      "match_items p (advance prev s i) (drop i s) = Some (m_groups m', m_end m' - m_start m')"
      "m_start m' \<le> m_end m'"
      by blast
    have "drop i s = drop (m_start m') md" using "1.prems" i(2) by (simp add: add.commute)
    with i(3) have here: "\<exists>pv. match_items p pv (drop (m_start m') md)
                      = Some (m_groups m', m_end m' - m_start m')"
      by auto
    from i(2) have le: "pos \<le> m_start m'" by simp
    show ?thesis
    proof (cases "length s < next_step pos m'")
      case True
      with Some have "finditer_from p pos prev s = [m']"
        by (simp add: finditer_from.simps [of p pos prev s] Let_def)
      with here le show ?thesis by simp
    next
      case False
      let ?step = "next_step pos m'"
      let ?rest = "finditer_from p (pos + ?step) (advance prev s ?step) (drop ?step s)"
      from False Some have f: "finditer_from p pos prev s = m' # ?rest"
        by (simp add: finditer_from.simps [of p pos prev s] Let_def)
      have "drop ?step s = drop (pos + ?step) md" using "1.prems" by (simp add: add.commute)
      from "1.IH" [OF Some refl False this]
      have ih: "sorted_wrt (\<lambda>a b. m_start a < m_start b) ?rest"
        "\<forall>m\<in>set ?rest. pos + ?step \<le> m_start m
           \<and> (\<exists>pv. match_items p pv (drop (m_start m) md)
                      = Some (m_groups m, m_end m - m_start m))"
        by simp_all
      from next_step_after [OF le i(4)] have lt: "m_start m' < pos + ?step" .
      have "\<forall>m\<in>set ?rest. m_start m' < m_start m \<and> pos \<le> m_start m"
        using ih(2) lt by fastforce
      with ih here le show ?thesis unfolding f by auto
    qed
  qed
qed

text \<open>
  The parser never renumbers or reorders: for every document, the sections it returns are
  those of matches at strictly increasing offsets of the document, and the number of a
  section is the non-empty digit string that the document holds at that offset between
  \<open>## \<close> and the dot.
\<close>

lemma parse_thesis_source_order:
  "\<exists>ms. parsed_sections (parse_thesis md) = map section_of ms
     \<and> sorted_wrt (\<lambda>a b. m_start a < m_start b) ms
     \<and> (\<forall>m\<in>set ms. number (section_of m) \<noteq> []
           \<and> (\<forall>c\<in>set (number (section_of m)). isdigit c)
           \<and> prefix (''## '' @ number (section_of m) @ ''. '') (drop (m_start m) md))"
proof -
  let ?ms = "re_finditer section_pattern md"
  have "md = drop 0 md" by simp
  from finditer_from_ordered [OF this, of section_pattern None]
  have o: "sorted_wrt (\<lambda>a b. m_start a < m_start b) ?ms"
    and h: "\<forall>m\<in>set ?ms. \<exists>pv. match_items section_pattern pv (drop (m_start m) md)
                      = Some (m_groups m, m_end m - m_start m)"
    by (simp_all add: re_finditer_def)
  have "\<forall>m\<in>set ?ms. number (section_of m) \<noteq> []
           \<and> (\<forall>c\<in>set (number (section_of m)). isdigit c)
           \<and> prefix (''## '' @ number (section_of m) @ ''. '') (drop (m_start m) md)"
  proof
    fix m assume "m \<in> set ?ms"
    with h obtain pv where "match_items section_pattern pv (drop (m_start m) md)
                      = Some (m_groups m, m_end m - m_start m)"
      by blast
    from section_match_header [OF this]
    show "number (section_of m) \<noteq> []
           \<and> (\<forall>c\<in>set (number (section_of m)). isdigit c)
           \<and> prefix (''## '' @ number (section_of m) @ ''. '') (drop (m_start m) md)"
      by (simp add: section_of_def)
  qed
  moreover have "parsed_sections (parse_thesis md) = map section_of ?ms"
    by (simp add: parse_thesis_eq parsed_sections_def)
  ultimately show ?thesis using o by blast
qed

text \<open>
  C6. The document parser returns a record for every markdown string: no step of it
  raises. When the region pattern finds nothing, the region is the default \<open>US\<close>; when
  the sector pattern or the summary pattern finds nothing, the field is the empty string;
  when no numbered section matches, the section list is empty. In particular a text
  without \<open>**Region**:\<close> has the region \<open>US\<close>, and a text without \<open>## \<close> has an empty
  sector, an empty summary and no sections.
\<close>

theorem parse_thesis_total:
  "\<exists>d. parse_thesis md = Inr d
     \<and> (re_search region_pattern md = None \<longrightarrow> region d = ''US'')
     \<and> (re_search sector_pattern md = None \<longrightarrow> sector d = [])
     \<and> (re_search summary_pattern md = None \<longrightarrow> executive_summary d = [])
     \<and> (re_finditer section_pattern md = [] \<longrightarrow> sections d = [])
     \<and> (\<not> contains md ''**Region**:'' \<longrightarrow> region d = ''US'')
     \<and> (\<not> contains md ''## Executive Summary'' \<longrightarrow> executive_summary d = [])
     \<and> (\<not> contains md ''## '' \<longrightarrow> sector d = [] \<and> sections d = [])"
  by (simp add: parse_thesis_eq absent_literal)

theorem parse_thesis_total_witness:
  "parse_thesis ''Notes without any header''
     = Inr \<lparr>sector = [], region = ''US'', executive_summary = [], sections = []\<rparr>"
proof -
  have c: "\<not> contains ''Notes without any header'' ''**Region**:''"
    "\<not> contains ''Notes without any header'' ''## Executive Summary''"
    "\<not> contains ''Notes without any header'' ''## ''"
    by code_simp+
  from parse_thesis_total [of "''Notes without any header''"] obtain d where
    d: "parse_thesis ''Notes without any header'' = Inr d" "region d = ''US''"
    "executive_summary d = []" "sector d = []" "sections d = []"
    using c by blast
  then have "d = \<lparr>sector = [], region = ''US'', executive_summary = [], sections = []\<rparr>"
    by (cases d) simp
  with d(1) show ?thesis by simp
qed

text \<open>
  C5 at two documents. The sections numbered 1, 2 and 5, each with a body, come back in
  that order with those numbers. When the header of section 2 follows the header of
  section 1 at once, the parser returns one section: the second header has become the
  content of the first.
\<close>

theorem parse_thesis_adjacent_headers:
  "section_numbers (parse_thesis gapped_markdown) = [''1'', ''2'', ''5'']
   \<and> parsed_sections (parse_thesis adjacent_markdown)
       = [\<lparr>number = ''1'', title = ''A'', content = ''## 2. B'' @ [NL] @ ''b''\<rparr>]"
  by code_simp

section \<open>Properties of the grammar review\<close>














end
